theory Spec2Isabelle
  imports Complex_Main "HOL-Library.Word" "HOL-Library.Log_Nat"
begin

unbundle bit_operations_syntax

section \<open>The voice changer of main.cpp\<close>

text \<open>
  The program filters a stream of 16-bit PCM samples: every sample goes through a
  \<open>PitchShifter\<close> (a delay buffer) and a \<open>LowPassFilter\<close> (a single-pole smoother),
  inside an \<open>AudioProcessor\<close> that owns a byte queue between \<open>writeData\<close> and
  \<open>readData\<close>. The second variant of the program, main-st.cpp, hands the samples to
  the SoundTouch library instead and has no filter, shifter or queue of its own; it is
  not embedded here.

  Conventions of the embedding.
  \<^item> A C++ \<open>double\<close> is a \<open>real\<close>. In the filter and in the conversion of samples
    the arithmetic is exact: rounding error is outside the model there. The threshold
    of the shifter is an integer cut from a product, so there the two operations are
    rounded to the nearest double as the machine rounds them (\<open>round_double\<close>).
    The literal \<open>0.8\<close> is the fraction \<open>4/5\<close>; the threshold computed from it is
    55125, as it is from the double nearest to 0.8.
  \<^item> An infinity or a NaN is no real number. The program can produce one by a division
    by zero, in the constructor of \<open>LowPassFilter\<close> and in \<open>PitchShifter::process\<close>:
    both definitions have a branch for it.
  \<^item> A conversion from \<open>double\<close> to an integer type truncates towards zero and is
    undefined in C++ when the truncated value does not fit the target type. Undefined
    behaviour is the result \<open>None\<close>.
  \<^item> \<open>qint16\<close> is \<open>16 word\<close>, read as a signed number by \<open>sint\<close>; a \<open>char\<close> of a
    buffer is \<open>8 word\<close>; \<open>size_t\<close> has 64 bits. Samples are laid out in memory low
    byte first (the program reinterprets byte pointers as \<open>qint16\<close> pointers on a
    little-endian host).
  \<^item> A \<open>(data, len)\<close> argument pair is the list of the \<open>len\<close> bytes at \<open>data\<close>; blocks
    are shorter than \<open>2^31\<close> bytes, as a \<open>QByteArray\<close> is.
\<close>

type_synonym byte = "8 word"
type_synonym qint16 = "16 word"

subsection \<open>Constants\<close>

definition PI :: real where
  "PI = 3.14159265358979323846"

definition SAMPLE_RATE :: int where
  "SAMPLE_RATE = 44100"

subsection \<open>Conversions\<close>

definition trunc_double :: "real \<Rightarrow> int" where
  "trunc_double x = (if 0 \<le> x then \<lfloor>x\<rfloor> else \<lceil>x\<rceil>)"

definition double_to_size_t :: "real \<Rightarrow> nat option" where
  "double_to_size_t x =
     (if 0 \<le> trunc_double x \<and> trunc_double x < 2 ^ 64 then Some (nat (trunc_double x))
      else None)"

definition double_to_qint16 :: "real \<Rightarrow> qint16 option" where
  "double_to_qint16 x =
     (if - 32768 \<le> trunc_double x \<and> trunc_double x \<le> 32767
      then Some (word_of_int (trunc_double x)) else None)"

definition qint16_of_bytes :: "byte \<Rightarrow> byte \<Rightarrow> qint16" where
  "qint16_of_bytes lo hi = word_of_int (uint lo + 256 * uint hi)"

definition bytes_of_qint16 :: "qint16 \<Rightarrow> byte list" where
  "bytes_of_qint16 w = [ucast w, ucast (drop_bit 8 w)]"

subsection \<open>Rounding to the nearest double\<close>

text \<open>
  A double has a significand of 53 bits. \<open>exponent2 x\<close> is the exponent \<open>e\<close> of a
  positive \<open>x\<close>, with \<open>2^e \<le> x < 2^(e+1)\<close>; \<open>round_double x\<close> is the multiple of
  \<open>2^(e-52)\<close> nearest to \<open>x\<close>, the even one of two that are equally near. The range of
  the exponent is not bounded here. For the threshold of the shifter this makes no
  difference: where the machine gives an infinity, \<open>round_double\<close> gives a number
  above \<open>2^64\<close>, and the conversion to \<open>size_t\<close> is undefined for both; where the
  machine gives a subnormal number, both products are below 1 and the threshold is 0.
\<close>

definition round_to_even :: "real \<Rightarrow> int" where
  "round_to_even x =
     (let n = \<lfloor>x\<rfloor>; r = x - of_int n
      in if r < 1 / 2 then n else if 1 / 2 < r then n + 1 else if even n then n else n + 1)"

definition exponent2 :: "real \<Rightarrow> int" where
  "exponent2 x = (if 1 \<le> x then bitlen \<lfloor>x\<rfloor> - 1 else - bitlen (\<lceil>1 / x\<rceil> - 1))"

definition round_double :: "real \<Rightarrow> real" where
  "round_double x =
     (if x = 0 then 0
      else let ulp = 2 powi (exponent2 \<bar>x\<bar> - 52)
           in of_int (round_to_even (x / ulp)) * ulp)"

subsection \<open>LowPassFilter\<close>

record LowPassFilter =
  alpha :: real
  prev :: real

text \<open>
  The constructor always returns an object, with \<open>prev = 0\<close>. Its \<open>alpha\<close> is a number
  except in two cases, where the result here is \<open>None\<close>: no record of this theory can
  hold an \<open>alpha\<close> that is a NaN or an infinity.
  \<^item> With \<open>cutoffFrequency = 0\<close> the first division is by zero and \<open>RC\<close> is infinite.
    For a sample rate other than 0 so is \<open>RC * sampleRate + 1.0\<close>, and \<open>alpha\<close> is 1.0
    divided by an infinity, which is 0. For the sample rate 0 the product is a NaN, and
    so is \<open>alpha\<close>.
  \<^item> With \<open>RC * sampleRate + 1.0 = 0\<close> the second division is by zero and \<open>alpha\<close> is
    infinite.
\<close>

definition LowPassFilter_init :: "real \<Rightarrow> real \<Rightarrow> LowPassFilter option" where
  "LowPassFilter_init cutoffFrequency sampleRate =
     (if 2 * PI * cutoffFrequency = 0
      then (if sampleRate = 0 then None else Some \<lparr>alpha = 0, prev = 0\<rparr>)
      else let RC = 1 / (2 * PI * cutoffFrequency)
           in if RC * sampleRate + 1 = 0 then None
              else Some \<lparr>alpha = 1 / (RC * sampleRate + 1), prev = 0\<rparr>)"

definition LowPassFilter_process :: "LowPassFilter \<Rightarrow> real \<Rightarrow> real \<times> LowPassFilter" where
  "LowPassFilter_process f input =
     (let output = prev f + alpha f * (input - prev f)
      in (output, f\<lparr>prev := output\<rparr>))"

subsection \<open>PitchShifter\<close>

record PitchShifter =
  factor :: real
  phase :: real
  buffer :: "real list"

definition PitchShifter_init :: "real \<Rightarrow> PitchShifter" where
  "PitchShifter_init pitchFactor = \<lparr>factor = pitchFactor, phase = 0, buffer = []\<rparr>"

text \<open>
  \<open>static_cast<size_t>(1.0 / factor * SAMPLE_RATE)\<close>: the quotient is rounded to a
  double, then the product is, then it is truncated. With \<open>factor = 0\<close> the quotient is
  infinite and the conversion undefined.
\<close>

definition PitchShifter_threshold :: "real \<Rightarrow> nat option" where
  "PitchShifter_threshold factor_value =
     (if factor_value = 0 then None
      else double_to_size_t
             (round_double (round_double (1 / factor_value) * real_of_int SAMPLE_RATE)))"

text \<open>\<open>process\<close> pushes the input, then compares the size of the buffer with the threshold.\<close>

definition PitchShifter_process :: "PitchShifter \<Rightarrow> real \<Rightarrow> (real \<times> PitchShifter) option" where
  "PitchShifter_process p input =
     (let buf = buffer p @ [input]
      in case PitchShifter_threshold (factor p) of
           None \<Rightarrow> None
         | Some threshold \<Rightarrow>
             if length buf > threshold
             then Some (hd buf, p\<lparr>buffer := tl buf\<rparr>)
             else Some (0, p\<lparr>buffer := buf\<rparr>))"

subsection \<open>AudioProcessor\<close>

text \<open>
  The fields of the class, and the open mode of its \<open>QIODevice\<close> base (\<open>True\<close> when
  open). The \<open>format\<close> member is stored by the constructor and read by no method.
  The filter of the processor is constructed from 300 and 44100, for which \<open>alpha\<close> is
  a number (\<open>LowPassFilter_init_300\<close> below).
\<close>

record AudioProcessor =
  filter_lpf :: LowPassFilter
  shifter :: PitchShifter
  outputBuffer :: "byte list"
  openMode :: bool

definition AudioProcessor_init :: AudioProcessor where
  "AudioProcessor_init =
     \<lparr>filter_lpf = the (LowPassFilter_init 300 (real_of_int SAMPLE_RATE)),
      shifter = PitchShifter_init 0.8,
      outputBuffer = [],
      openMode = True\<rparr>"

text \<open>
  \<open>QIODevice::open\<close> and \<open>QIODevice::close\<close> are not overridden: they set the open mode
  of the base object and have no access to the private members of \<open>AudioProcessor\<close>.
\<close>

definition startProcessing :: "AudioProcessor \<Rightarrow> AudioProcessor" where
  "startProcessing st = st\<lparr>openMode := True\<rparr>"

definition stopProcessing :: "AudioProcessor \<Rightarrow> AudioProcessor" where
  "stopProcessing st = st\<lparr>openMode := False\<rparr>"

text \<open>
  \<open>readData\<close> returns the count, the bytes copied to the caller's buffer and the new
  state. A negative \<open>maxlen\<close> with a non-empty queue reaches \<open>memcpy\<close> with a negative
  count, which is undefined.
\<close>

definition readData :: "AudioProcessor \<Rightarrow> int \<Rightarrow> (int \<times> byte list \<times> AudioProcessor) option" where
  "readData st maxlen =
     (if outputBuffer st = [] then Some (0, [], st)
      else let bytesToRead = min maxlen (int (length (outputBuffer st)))
           in if bytesToRead < 0 then None
              else Some (bytesToRead,
                         take (nat bytesToRead) (outputBuffer st),
                         st\<lparr>outputBuffer := drop (nat bytesToRead) (outputBuffer st)\<rparr>))"

text \<open>\<open>samples[i]\<close>, for \<open>i < len / 2\<close>.\<close>

definition sample_at :: "byte list \<Rightarrow> nat \<Rightarrow> qint16" where
  "sample_at data i = qint16_of_bytes (data ! (2 * i)) (data ! (2 * i + 1))"

text \<open>
  The body of the loop of \<open>writeData\<close>, for one sample: the new \<open>processedData\<close>, filter
  and shifter.
\<close>

definition processSample ::
  "LowPassFilter \<Rightarrow> PitchShifter \<Rightarrow> byte list \<Rightarrow> qint16
     \<Rightarrow> (byte list \<times> LowPassFilter \<times> PitchShifter) option" where
  "processSample f s processedData smp =
     (let sample = real_of_int (sint smp) / 32768
      in case PitchShifter_process s sample of
           None \<Rightarrow> None
         | Some (pitchedSample, s') \<Rightarrow>
             (let (filteredSample, f') = LowPassFilter_process f pitchedSample
              in case double_to_qint16 (filteredSample * 32767) of
                   None \<Rightarrow> None
                 | Some outputSample \<Rightarrow>
                     Some (processedData @ bytes_of_qint16 outputSample, f', s')))"

fun processSamples ::
  "LowPassFilter \<Rightarrow> PitchShifter \<Rightarrow> byte list \<Rightarrow> qint16 list
     \<Rightarrow> (byte list \<times> LowPassFilter \<times> PitchShifter) option" where
  "processSamples f s processedData [] = Some (processedData, f, s)"
| "processSamples f s processedData (smp # smps) =
     (case processSample f s processedData smp of
        None \<Rightarrow> None
      | Some (processedData', f', s') \<Rightarrow> processSamples f' s' processedData' smps)"

definition writeData :: "AudioProcessor \<Rightarrow> byte list \<Rightarrow> (int \<times> AudioProcessor) option" where
  "writeData st data =
     (let sampleCount = length data div 2
      in case processSamples (filter_lpf st) (shifter st) []
                (map (sample_at data) [0..<sampleCount]) of
           None \<Rightarrow> None
         | Some (processedData, f', s') \<Rightarrow>
             Some (int (length data),
                   st\<lparr>filter_lpf := f', shifter := s',
                      outputBuffer := outputBuffer st @ processedData\<rparr>))"

section \<open>Observers\<close>

text \<open>
  The statements below speak of sequences of calls. These functions iterate the
  operations above and collect what they return; \<open>recurrence_spec\<close> is the recurrence
  of the specification, written from its words.
\<close>

fun LowPassFilter_run :: "LowPassFilter \<Rightarrow> real list \<Rightarrow> real list \<times> LowPassFilter" where
  "LowPassFilter_run f [] = ([], f)"
| "LowPassFilter_run f (x # xs) =
     (let (y, f') = LowPassFilter_process f x;
          (ys, f'') = LowPassFilter_run f' xs
      in (y # ys, f''))"

fun recurrence_spec :: "real \<Rightarrow> real list \<Rightarrow> nat \<Rightarrow> real" where
  "recurrence_spec a xs 0 = 0"
| "recurrence_spec a xs (Suc i) =
     recurrence_spec a xs i + a * (xs ! i - recurrence_spec a xs i)"


datatype io_call = WriteCall "byte list" | ReadCall int

fun run_calls ::
  "AudioProcessor \<Rightarrow> io_call list \<Rightarrow> (byte list \<times> byte list \<times> AudioProcessor) option" where
  "run_calls st [] = Some ([], [], st)"
| "run_calls st (WriteCall data # calls) =
     (case writeData st data of
        None \<Rightarrow> None
      | Some (n, st') \<Rightarrow>
          (case run_calls st' calls of
             None \<Rightarrow> None
           | Some (delivered, appended, st'') \<Rightarrow>
               Some (delivered,
                     drop (length (outputBuffer st)) (outputBuffer st') @ appended, st'')))"
| "run_calls st (ReadCall maxlen # calls) =
     (case readData st maxlen of
        None \<Rightarrow> None
      | Some (n, bytes, st') \<Rightarrow>
          (case run_calls st' calls of
             None \<Rightarrow> None
           | Some (delivered, appended, st'') \<Rightarrow> Some (bytes @ delivered, appended, st'')))"

fun reads_nonneg :: "io_call list \<Rightarrow> bool" where
  "reads_nonneg [] = True"
| "reads_nonneg (WriteCall data # calls) = reads_nonneg calls"
| "reads_nonneg (ReadCall maxlen # calls) = (0 \<le> maxlen \<and> reads_nonneg calls)"

subsection \<open>States and encodings used in the statements\<close>

text \<open>
  \<open>normalised\<close> holds of the states in which the filter and the shifter hold values of
  \<open>[-1, 1]\<close> only, with \<open>alpha\<close> in \<open>(0, 1]\<close> and a positive factor whose threshold is
  defined: the state after construction is one, and \<open>writeData\<close> keeps the property.
\<close>

definition normalised :: "AudioProcessor \<Rightarrow> bool" where
  "normalised st \<longleftrightarrow>
     0 < alpha (filter_lpf st) \<and> alpha (filter_lpf st) \<le> 1 \<and>
     - 1 \<le> prev (filter_lpf st) \<and> prev (filter_lpf st) \<le> 1 \<and>
     list_all (\<lambda>x. - 1 \<le> x \<and> x \<le> 1) (buffer (shifter st)) \<and>
     0 < factor (shifter st) \<and> PitchShifter_threshold (factor (shifter st)) \<noteq> None"




text \<open>
  The state of the processor once 55125 samples of value 13 have been written and the
  output queue has been read empty: the buffer of the shifter has reached its threshold.
\<close>

definition full_state :: AudioProcessor where
  "full_state =
     AudioProcessor_init
       \<lparr>shifter := \<lparr>factor = 0.8, phase = 0, buffer = replicate 55125 (13 / 32768)\<rparr>\<rparr>"

section \<open>Auxiliary facts\<close>








lemma PitchShifter_threshold_init: "PitchShifter_threshold (4 / 5) = Some 55125"
  by (simp add: PitchShifter_threshold_def double_to_size_t_def trunc_double_def
      round_double_def exponent2_def compute_bitlen round_to_even_def SAMPLE_RATE_def)

lemma LowPassFilter_init_300:
  "LowPassFilter_init 300 44100 =
     Some \<lparr>alpha = 157079632679489661923 / 3832079632679489661923, prev = 0\<rparr>"
  by (simp add: LowPassFilter_init_def PI_def Let_def)

lemma PitchShifter_process_Some:
  assumes "PitchShifter_threshold (factor p) = Some t"
  shows "PitchShifter_process p x =
           Some (if length (buffer p @ [x]) > t
                 then (hd (buffer p @ [x]), p\<lparr>buffer := tl (buffer p @ [x])\<rparr>)
                 else (0, p\<lparr>buffer := buffer p @ [x]\<rparr>))"
  using assms by (simp add: PitchShifter_process_def Let_def)

lemma LowPassFilter_run_append:
  "LowPassFilter_run f (xs @ ys) =
     (let (a, f') = LowPassFilter_run f xs; (b, f'') = LowPassFilter_run f' ys in (a @ b, f''))"
  by (induction xs arbitrary: f) (simp_all add: Let_def case_prod_beta)

lemma LowPassFilter_run_length: "length (fst (LowPassFilter_run f xs)) = length xs"
  by (induction xs arbitrary: f) (simp_all add: Let_def case_prod_beta)

lemma LowPassFilter_run_alpha: "alpha (snd (LowPassFilter_run f xs)) = alpha f"
  by (induction xs arbitrary: f) (simp_all add: Let_def LowPassFilter_process_def case_prod_beta)

lemma LowPassFilter_run_prev:
  assumes "prev f = 0" and "i \<le> length xs"
  shows "prev (snd (LowPassFilter_run f (take i xs))) = recurrence_spec (alpha f) xs i"
  using assms(2)
proof (induction i)
  case 0
  then show ?case using assms(1) by simp
next
  case (Suc i)
  then have lt: "i < length xs" by simp
  have "take (Suc i) xs = take i xs @ [xs ! i]"
    using lt by (rule take_Suc_conv_app_nth)
  then show ?case
    using Suc.IH lt LowPassFilter_run_alpha [of f "take i xs"]
    by (simp add: LowPassFilter_run_append LowPassFilter_process_def Let_def case_prod_beta)
qed

lemma LowPassFilter_run_nth:
  assumes "i < length xs"
  shows "fst (LowPassFilter_run f xs) ! i =
           fst (LowPassFilter_process (snd (LowPassFilter_run f (take i xs))) (xs ! i))"
proof -
  have "xs = take i xs @ xs ! i # drop (Suc i) xs"
    using assms by (simp add: id_take_nth_drop)
  then have "LowPassFilter_run f xs = LowPassFilter_run f (take i xs @ xs ! i # drop (Suc i) xs)"
    by simp
  moreover have "length (fst (LowPassFilter_run f (take i xs))) = i"
    using assms by (simp add: LowPassFilter_run_length)
  ultimately show ?thesis
    by (simp add: LowPassFilter_run_append Let_def nth_append case_prod_beta)
qed

lemma LowPassFilter_process_bounded:
  assumes "0 < alpha f" and "alpha f \<le> 1" and "- 1 \<le> prev f" and "prev f \<le> 1"
    and "- 1 \<le> x" and "x \<le> 1"
  shows "- 1 \<le> fst (LowPassFilter_process f x) \<and> fst (LowPassFilter_process f x) \<le> 1"
proof -
  let ?a = "alpha f" and ?p = "prev f"
  have eq: "fst (LowPassFilter_process f x) = (1 - ?a) * ?p + ?a * x"
    by (simp add: LowPassFilter_process_def Let_def algebra_simps)
  have "(1 - ?a) * ?p \<le> (1 - ?a) * 1"
    by (rule mult_left_mono) (use assms in simp_all)
  moreover have "?a * x \<le> ?a * 1"
    by (rule mult_left_mono) (use assms in simp_all)
  ultimately have up: "(1 - ?a) * ?p + ?a * x \<le> 1" by simp
  have "(1 - ?a) * (- 1) \<le> (1 - ?a) * ?p"
    by (rule mult_left_mono) (use assms in simp_all)
  moreover have "?a * (- 1) \<le> ?a * x"
    by (rule mult_left_mono) (use assms in simp_all)
  ultimately have "- 1 \<le> (1 - ?a) * ?p + ?a * x" by simp
  with up eq show ?thesis by simp
qed

lemma LowPassFilter_process_snd:
  "snd (LowPassFilter_process f x) = f\<lparr>prev := fst (LowPassFilter_process f x)\<rparr>"
  by (simp add: LowPassFilter_process_def Let_def)

lemma LowPassFilter_run_bounded:
  assumes "0 < alpha f" and "alpha f \<le> 1" and "- 1 \<le> prev f" and "prev f \<le> 1"
    and "\<forall>x \<in> set xs. - 1 \<le> x \<and> x \<le> 1"
  shows "(\<forall>y \<in> set (fst (LowPassFilter_run f xs)). - 1 \<le> y \<and> y \<le> 1) \<and>
         - 1 \<le> prev (snd (LowPassFilter_run f xs)) \<and> prev (snd (LowPassFilter_run f xs)) \<le> 1"
  using assms
proof (induction xs arbitrary: f)
  case Nil
  then show ?case by simp
next
  case (Cons x xs)
  let ?f' = "snd (LowPassFilter_process f x)"
  have step: "- 1 \<le> fst (LowPassFilter_process f x) \<and> fst (LowPassFilter_process f x) \<le> 1"
    using Cons.prems by (intro LowPassFilter_process_bounded) simp_all
  have "0 < alpha ?f'" "alpha ?f' \<le> 1" "- 1 \<le> prev ?f'" "prev ?f' \<le> 1"
    using Cons.prems step by (simp_all add: LowPassFilter_process_snd)
  moreover have "\<forall>x \<in> set xs. - 1 \<le> x \<and> x \<le> 1"
    using Cons.prems by simp
  ultimately have "(\<forall>y \<in> set (fst (LowPassFilter_run ?f' xs)). - 1 \<le> y \<and> y \<le> 1) \<and>
         - 1 \<le> prev (snd (LowPassFilter_run ?f' xs)) \<and> prev (snd (LowPassFilter_run ?f' xs)) \<le> 1"
    by (rule Cons.IH)
  with step show ?case
    by (simp add: Let_def case_prod_beta)
qed






lemma readData_nonneg:
  assumes "0 \<le> maxlen"
  shows "readData st maxlen =
           Some (int (length (take (nat maxlen) (outputBuffer st))),
                 take (nat maxlen) (outputBuffer st),
                 st\<lparr>outputBuffer := drop (nat maxlen) (outputBuffer st)\<rparr>)"
proof (cases "outputBuffer st = []")
  case True
  then show ?thesis by (simp add: readData_def)
next
  case False
  show ?thesis
  proof (cases "maxlen \<le> int (length (outputBuffer st))")
    case True
    then have "nat maxlen \<le> length (outputBuffer st)" by simp
    then show ?thesis
      using True False assms by (simp add: readData_def Let_def min_def)
  next
    case gt: False
    then have "length (outputBuffer st) \<le> nat maxlen" by simp
    then show ?thesis
      using gt False by (simp add: readData_def Let_def min_def)
  qed
qed

lemma writeData_Some:
  assumes "writeData st data = Some (n, st')"
  shows "n = int (length data) \<and>
         outputBuffer st' =
           outputBuffer st @ drop (length (outputBuffer st)) (outputBuffer st') \<and>
         openMode st' = openMode st"
  using assms by (auto simp add: writeData_def Let_def split: option.splits)

lemma run_calls_fifo:
  assumes "reads_nonneg calls" and "run_calls st calls = Some (delivered, appended, st')"
  shows "delivered @ outputBuffer st' = outputBuffer st @ appended"
  using assms
proof (induction st calls arbitrary: delivered appended st' rule: run_calls.induct)
  case (1 st)
  then show ?case by simp
next
  case (2 st data calls)
  from "2.prems"(2) obtain n st1 where w: "writeData st data = Some (n, st1)"
    by (auto split: option.splits)
  with "2.prems"(2) obtain appended1 where
    r: "run_calls st1 calls = Some (delivered, appended1, st')"
    and a: "appended = drop (length (outputBuffer st)) (outputBuffer st1) @ appended1"
    by (auto split: option.splits)
  have "delivered @ outputBuffer st' = outputBuffer st1 @ appended1"
    using "2.IH" [OF w refl _ r] "2.prems"(1) by simp
  moreover have "outputBuffer st1 =
      outputBuffer st @ drop (length (outputBuffer st)) (outputBuffer st1)"
    using writeData_Some [OF w] by simp
  ultimately show ?case
    using a by (metis append.assoc)
next
  case (3 st maxlen calls)
  from "3.prems"(1) have m: "0 \<le> maxlen" and rest: "reads_nonneg calls" by simp_all
  note rd = readData_nonneg [OF m, of st]
  let ?st1 = "st\<lparr>outputBuffer := drop (nat maxlen) (outputBuffer st)\<rparr>"
  from "3.prems"(2) rd obtain delivered1 where
    r: "run_calls ?st1 calls = Some (delivered1, appended, st')"
    and d: "delivered = take (nat maxlen) (outputBuffer st) @ delivered1"
    by (auto split: option.splits)
  have "delivered1 @ outputBuffer st' = outputBuffer ?st1 @ appended"
    using "3.IH" [OF rd refl refl rest r] .
  then show ?case
    using d by simp
qed

lemma run_calls_reads:
  assumes "\<forall>m \<in> set ms. 0 \<le> m"
  shows "run_calls st (map ReadCall ms) =
           Some (take (nat (sum_list ms)) (outputBuffer st), [],
                 st\<lparr>outputBuffer := drop (nat (sum_list ms)) (outputBuffer st)\<rparr>)"
  using assms
proof (induction ms arbitrary: st)
  case Nil
  then show ?case by simp
next
  case (Cons m ms)
  then have m: "0 \<le> m" and rest: "\<forall>m \<in> set ms. 0 \<le> m" by simp_all
  have s: "0 \<le> sum_list ms"
    using rest by (simp add: sum_list_nonneg)
  have n: "nat (m + sum_list ms) = nat m + nat (sum_list ms)"
    using m s by (simp add: nat_add_distrib)
  show ?case
    using Cons.IH [OF rest, of "st\<lparr>outputBuffer := drop (nat m) (outputBuffer st)\<rparr>"]
      readData_nonneg [OF m, of st]
    by (simp add: n take_add add.commute)
qed

lemma samples_butlast:
  assumes "odd (length data)"
  shows "map (sample_at data) [0..<length data div 2] =
         map (sample_at (butlast data)) [0..<length (butlast data) div 2]"
proof -
  have len: "length (butlast data) div 2 = length data div 2"
    using assms by (auto elim!: oddE)
  have "sample_at data i = sample_at (butlast data) i" if "i < length data div 2" for i
  proof -
    have "2 * i + 1 < length data - 1"
      using that assms by (auto elim!: oddE)
    then show ?thesis
      by (simp add: sample_at_def nth_butlast)
  qed
  then show ?thesis
    unfolding len by simp
qed


lemma writeData_odd:
  assumes "odd (length data)"
  shows "writeData st data =
           map_option (\<lambda>(n, st'). (int (length data), st')) (writeData st (butlast data))"
  unfolding writeData_def Let_def samples_butlast [OF assms]
  by (simp split: option.splits)




lemma double_to_qint16_None:
  "double_to_qint16 v = None \<longleftrightarrow> v \<le> - 32769 \<or> 32768 \<le> v"
proof -
  have "trunc_double v < - 32768 \<longleftrightarrow> v \<le> - 32769"
    by (auto simp add: trunc_double_def ceiling_less_iff floor_less_iff)
  moreover have "32767 < trunc_double v \<longleftrightarrow> 32768 \<le> v"
    by (auto simp add: trunc_double_def less_ceiling_iff less_floor_iff)
  ultimately show ?thesis
    by (auto simp add: double_to_qint16_def)
qed

lemma sample_normalised:
  "- 1 \<le> real_of_int (sint (w :: qint16)) / 32768 \<and> real_of_int (sint w) / 32768 \<le> 1"
proof -
  have "- 32768 \<le> sint w" and "sint w < 32768"
    using sint_ge [of w] sint_lt [of w] by simp_all
  then have "- 32768 \<le> real_of_int (sint w)" and "real_of_int (sint w) \<le> 32768"
    by linarith+
  then show ?thesis by simp
qed

lemma PitchShifter_process_bounded:
  assumes "PitchShifter_threshold (factor p) = Some t"
    and "list_all (\<lambda>x. - 1 \<le> x \<and> x \<le> 1) (buffer p)" and "- 1 \<le> x" and "x \<le> 1"
  shows "\<exists>y p'. PitchShifter_process p x = Some (y, p') \<and> - 1 \<le> y \<and> y \<le> 1 \<and>
           factor p' = factor p \<and> list_all (\<lambda>x. - 1 \<le> x \<and> x \<le> 1) (buffer p')"
proof -
  let ?buf = "buffer p @ [x]"
  have all: "list_all (\<lambda>x. - 1 \<le> x \<and> x \<le> 1) ?buf"
    using assms(2-4) by simp
  then have "- 1 \<le> hd ?buf \<and> hd ?buf \<le> 1"
    by (cases "buffer p") simp_all
  moreover have "list_all (\<lambda>x. - 1 \<le> x \<and> x \<le> 1) (tl ?buf)"
    using all by (cases "buffer p") simp_all
  ultimately show ?thesis
    unfolding PitchShifter_process_Some [OF assms(1)] using all by simp
qed

lemma length_bytes_of_qint16: "length (bytes_of_qint16 w) = 2"
  by (simp add: bytes_of_qint16_def)

lemma processSample_normalised:
  assumes "0 < alpha f" and "alpha f \<le> 1" and "- 1 \<le> prev f" and "prev f \<le> 1"
    and "PitchShifter_threshold (factor s) = Some t"
    and "list_all (\<lambda>x. - 1 \<le> x \<and> x \<le> 1) (buffer s)"
  shows "\<exists>pd f' s'. processSample f s acc w = Some (pd, f', s') \<and>
           length pd = length acc + 2 \<and>
           alpha f' = alpha f \<and> - 1 \<le> prev f' \<and> prev f' \<le> 1 \<and>
           factor s' = factor s \<and> list_all (\<lambda>x. - 1 \<le> x \<and> x \<le> 1) (buffer s')"
proof -
  let ?x = "real_of_int (sint w) / 32768"
  from PitchShifter_process_bounded [OF assms(5,6), of ?x] sample_normalised [of w]
  obtain y s' where sh: "PitchShifter_process s ?x = Some (y, s')"
    and y: "- 1 \<le> y" "y \<le> 1" and s': "factor s' = factor s"
      "list_all (\<lambda>x. - 1 \<le> x \<and> x \<le> 1) (buffer s')"
    by blast
  let ?v = "fst (LowPassFilter_process f y)"
  have v: "- 1 \<le> ?v \<and> ?v \<le> 1"
    using assms(1-4) y by (rule LowPassFilter_process_bounded)
  then have "- 32767 \<le> ?v * 32767" and "?v * 32767 \<le> 32767"
    by simp_all
  then have "double_to_qint16 (?v * 32767) \<noteq> None"
    unfolding double_to_qint16_None by linarith
  then obtain out where out: "double_to_qint16 (?v * 32767) = Some out"
    by blast
  have "processSample f s acc w =
      Some (acc @ bytes_of_qint16 out, snd (LowPassFilter_process f y), s')"
    using sh out by (simp add: processSample_def Let_def case_prod_beta)
  then show ?thesis
    using v s' by (simp add: LowPassFilter_process_snd length_bytes_of_qint16)
qed

lemma processSamples_normalised:
  assumes "0 < alpha f" and "alpha f \<le> 1" and "- 1 \<le> prev f" and "prev f \<le> 1"
    and "PitchShifter_threshold (factor s) = Some t"
    and "list_all (\<lambda>x. - 1 \<le> x \<and> x \<le> 1) (buffer s)"
  shows "\<exists>pd f' s'. processSamples f s acc ws = Some (pd, f', s') \<and>
           length pd = length acc + 2 * length ws \<and>
           alpha f' = alpha f \<and> - 1 \<le> prev f' \<and> prev f' \<le> 1 \<and>
           factor s' = factor s \<and> list_all (\<lambda>x. - 1 \<le> x \<and> x \<le> 1) (buffer s')"
  using assms
proof (induction ws arbitrary: f s acc)
  case Nil
  then show ?case by simp
next
  case (Cons w ws)
  from processSample_normalised [OF Cons.prems, of acc w]
  obtain pd f1 s1 where st: "processSample f s acc w = Some (pd, f1, s1)"
    and pd: "length pd = length acc + 2"
    and f1: "alpha f1 = alpha f" "- 1 \<le> prev f1" "prev f1 \<le> 1"
    and s1: "factor s1 = factor s" "list_all (\<lambda>x. - 1 \<le> x \<and> x \<le> 1) (buffer s1)"
    by blast
  have "0 < alpha f1" "alpha f1 \<le> 1" "PitchShifter_threshold (factor s1) = Some t"
    using f1 s1 Cons.prems by simp_all
  from Cons.IH [OF this(1,2) f1(2,3) this(3) s1(2), of pd]
  obtain pd' f' s' where "processSamples f1 s1 pd ws = Some (pd', f', s')"
    "length pd' = length pd + 2 * length ws"
    "alpha f' = alpha f1" "- 1 \<le> prev f'" "prev f' \<le> 1"
    "factor s' = factor s1" "list_all (\<lambda>x. - 1 \<le> x \<and> x \<le> 1) (buffer s')"
    by blast
  then show ?case
    using st pd f1 s1 by simp
qed

lemma writeData_normalised:
  assumes "normalised st"
  shows "\<exists>st'. writeData st data = Some (int (length data), st') \<and> normalised st' \<and>
           length (outputBuffer st') = length (outputBuffer st) + 2 * (length data div 2)"
proof -
  let ?ws = "map (sample_at data) [0..<length data div 2]"
  obtain t where t: "PitchShifter_threshold (factor (shifter st)) = Some t"
    using assms by (auto simp add: normalised_def)
  have a: "0 < alpha (filter_lpf st)" "alpha (filter_lpf st) \<le> 1"
    "- 1 \<le> prev (filter_lpf st)" "prev (filter_lpf st) \<le> 1"
    and b: "list_all (\<lambda>x. - 1 \<le> x \<and> x \<le> 1) (buffer (shifter st))"
    and c: "0 < factor (shifter st)"
    using assms by (simp_all add: normalised_def)
  from processSamples_normalised [OF a t b, of "[]" ?ws]
  obtain pd f' s' where "processSamples (filter_lpf st) (shifter st) [] ?ws = Some (pd, f', s')"
    "length pd = 2 * length ?ws"
    "alpha f' = alpha (filter_lpf st)" "- 1 \<le> prev f'" "prev f' \<le> 1"
    "factor s' = factor (shifter st)" "list_all (\<lambda>x. - 1 \<le> x \<and> x \<le> 1) (buffer s')"
    by auto
  then show ?thesis
    using a c t by (simp add: writeData_def Let_def normalised_def)
qed

lemma normalised_init: "normalised AudioProcessor_init"
  by (simp add: normalised_def AudioProcessor_init_def LowPassFilter_init_300
      PitchShifter_init_def PitchShifter_threshold_init SAMPLE_RATE_def)





section \<open>PitchShifter\<close>







section \<open>LowPassFilter\<close>

text \<open>
  C4. Started with \<open>prev = 0\<close>, as the constructor leaves it, the filter's output at
  step \<open>i\<close> of any input sequence is the value \<open>prev_i\<close> of the recurrence
  \<open>prev_i = prev_(i-1) + alpha * (x_i - prev_(i-1))\<close>, \<open>prev_0 = 0\<close>, and the \<open>prev\<close> stored
  after step \<open>i\<close> is the same value. Steps are counted from 1; the list is indexed
  from 0.
\<close>

theorem LowPassFilter_recurrence:
  assumes "prev f = 0" and "i < length xs"
  shows "fst (LowPassFilter_run f xs) ! i = recurrence_spec (alpha f) xs (Suc i) \<and>
         prev (snd (LowPassFilter_run f (take (Suc i) xs))) = recurrence_spec (alpha f) xs (Suc i)"
proof -
  let ?g = "snd (LowPassFilter_run f (take i xs))"
  have p: "prev ?g = recurrence_spec (alpha f) xs i"
    using assms by (intro LowPassFilter_run_prev) simp_all
  have a: "alpha ?g = alpha f"
    by (rule LowPassFilter_run_alpha)
  have "fst (LowPassFilter_run f xs) ! i = fst (LowPassFilter_process ?g (xs ! i))"
    using assms(2) by (rule LowPassFilter_run_nth)
  then have "fst (LowPassFilter_run f xs) ! i = recurrence_spec (alpha f) xs (Suc i)"
    using p a by (simp add: LowPassFilter_process_def Let_def)
  moreover have "prev (snd (LowPassFilter_run f (take (Suc i) xs))) =
      recurrence_spec (alpha f) xs (Suc i)"
    using assms by (intro LowPassFilter_run_prev) simp_all
  ultimately show ?thesis by simp
qed

theorem LowPassFilter_recurrence_witness:
  "prev \<lparr>alpha = 1 / 2, prev = 0\<rparr> = 0 \<and> 1 < length [1, 0 :: real] \<and>
   fst (LowPassFilter_run \<lparr>alpha = 1 / 2, prev = 0\<rparr> [1, 0]) ! 1 = 1 / 4 \<and>
   recurrence_spec (1 / 2) [1, 0] (Suc 1) = 1 / 4 \<and>
   prev (snd (LowPassFilter_run \<lparr>alpha = 1 / 2, prev = 0\<rparr> (take (Suc 1) [1, 0]))) = 1 / 4"
  using LowPassFilter_recurrence [of "\<lparr>alpha = 1 / 2, prev = 0\<rparr>" 1 "[1, 0]"]
  by (simp add: LowPassFilter_process_def Let_def)

text \<open>
  C10. With \<open>alpha\<close> in \<open>(0, 1]\<close> and \<open>prev\<close> in \<open>[-1, 1]\<close>, every output of a run of
  \<open>process\<close> over inputs in \<open>[-1, 1]\<close> lies in \<open>[-1, 1]\<close>, and so does the stored \<open>prev\<close>,
  which after each call is the output of that call. Each output is the convex
  combination \<open>(1 - alpha) * prev + alpha * input\<close>. Arithmetic is exact here.
\<close>

theorem LowPassFilter_output_range:
  assumes "0 < alpha f" and "alpha f \<le> 1" and "- 1 \<le> prev f" and "prev f \<le> 1"
    and "\<forall>x \<in> set xs. - 1 \<le> x \<and> x \<le> 1"
  shows "(\<forall>y \<in> set (fst (LowPassFilter_run f xs)). - 1 \<le> y \<and> y \<le> 1) \<and>
         - 1 \<le> prev (snd (LowPassFilter_run f xs)) \<and>
         prev (snd (LowPassFilter_run f xs)) \<le> 1 \<and>
         fst (LowPassFilter_process f x) = (1 - alpha f) * prev f + alpha f * x \<and>
         snd (LowPassFilter_process f x) = f\<lparr>prev := fst (LowPassFilter_process f x)\<rparr>"
proof -
  have "fst (LowPassFilter_process f x) = (1 - alpha f) * prev f + alpha f * x"
    by (simp add: LowPassFilter_process_def Let_def algebra_simps)
  then show ?thesis
    using LowPassFilter_run_bounded [OF assms] LowPassFilter_process_snd [of f x] by simp
qed

theorem LowPassFilter_output_range_witness:
  "0 < alpha \<lparr>alpha = 1 / 2, prev = 1\<rparr> \<and> alpha \<lparr>alpha = 1 / 2, prev = 1\<rparr> \<le> 1 \<and>
   - 1 \<le> prev \<lparr>alpha = 1 / 2, prev = 1\<rparr> \<and> prev \<lparr>alpha = 1 / 2, prev = 1\<rparr> \<le> 1 \<and>
   list_all (\<lambda>x. - 1 \<le> x \<and> x \<le> 1) [- 1, 1 :: real] \<and>
   LowPassFilter_run \<lparr>alpha = 1 / 2, prev = 1\<rparr> [- 1, 1] =
     ([0, 1 / 2], \<lparr>alpha = 1 / 2, prev = 1 / 2\<rparr>) \<and>
   list_all (\<lambda>y. - 1 \<le> y \<and> y \<le> 1)
     (fst (LowPassFilter_run \<lparr>alpha = 1 / 2, prev = 1\<rparr> [- 1, 1])) \<and>
   - 1 \<le> prev (snd (LowPassFilter_run \<lparr>alpha = 1 / 2, prev = 1\<rparr> [- 1, 1])) \<and>
   prev (snd (LowPassFilter_run \<lparr>alpha = 1 / 2, prev = 1\<rparr> [- 1, 1])) \<le> 1"
  using LowPassFilter_output_range [of "\<lparr>alpha = 1 / 2, prev = 1\<rparr>" "[- 1, 1]" 0]
  by (simp add: LowPassFilter_process_def Let_def)

section \<open>The output queue\<close>

text \<open>
  C5. For a byte count \<open>maxlen \<ge> 0\<close>, \<open>readData\<close> returns the first
  \<open>min maxlen (length queue)\<close> bytes of the output queue, never more than \<open>maxlen\<close>, and
  removes them from the queue; on an empty queue it returns zero bytes and the state
  unchanged. Over any sequence of \<open>writeData\<close> and \<open>readData\<close> calls that returns, the
  bytes delivered so far followed by the queue are the initial queue followed by the
  bytes that the writes appended: delivery is in FIFO order. A sequence of reads alone
  always returns, and delivers the first \<open>sum maxlen\<close> bytes of the queue.
\<close>

theorem readData_fifo:
  "(0 \<le> maxlen \<longrightarrow>
      readData st maxlen =
        Some (int (length (take (nat maxlen) (outputBuffer st))),
              take (nat maxlen) (outputBuffer st),
              st\<lparr>outputBuffer := drop (nat maxlen) (outputBuffer st)\<rparr>) \<and>
      int (length (take (nat maxlen) (outputBuffer st))) \<le> maxlen) \<and>
   (outputBuffer st = [] \<longrightarrow> readData st maxlen = Some (0, [], st)) \<and>
   (reads_nonneg calls \<longrightarrow> run_calls st calls = Some (delivered, appended, st') \<longrightarrow>
      delivered @ outputBuffer st' = outputBuffer st @ appended) \<and>
   ((\<forall>m \<in> set ms. 0 \<le> m) \<longrightarrow>
      run_calls st (map ReadCall ms) =
        Some (take (nat (sum_list ms)) (outputBuffer st), [],
              st\<lparr>outputBuffer := drop (nat (sum_list ms)) (outputBuffer st)\<rparr>))"
proof -
  have "0 \<le> maxlen \<longrightarrow> int (length (take (nat maxlen) (outputBuffer st))) \<le> maxlen"
    by auto
  moreover have "outputBuffer st = [] \<longrightarrow> readData st maxlen = Some (0, [], st)"
    by (simp add: readData_def)
  ultimately show ?thesis
    using readData_nonneg [of maxlen st] run_calls_fifo [of calls st delivered appended st']
      run_calls_reads [of ms st]
    by blast
qed

theorem readData_fifo_witness:
  "(0 :: int) \<le> 3 \<and>
   readData (AudioProcessor_init\<lparr>outputBuffer := [1, 2, 3, 4, 5]\<rparr>) 3 =
     Some (3, [1, 2, 3], AudioProcessor_init\<lparr>outputBuffer := [4, 5]\<rparr>) \<and>
   readData AudioProcessor_init 3 = Some (0, [], AudioProcessor_init) \<and>
   reads_nonneg [ReadCall 1, WriteCall [7, 0], ReadCall 8] \<and>
   run_calls (AudioProcessor_init\<lparr>outputBuffer := [1, 2, 3]\<rparr>)
       [ReadCall 1, WriteCall [7, 0], ReadCall 8] =
     Some ([1, 2, 3, 0, 0], [0, 0],
       AudioProcessor_init\<lparr>shifter := \<lparr>factor = 0.8, phase = 0, buffer = [7 / 32768]\<rparr>\<rparr>) \<and>
   list_all (\<lambda>m. 0 \<le> m) [2, 0, 9 :: int] \<and>
   run_calls (AudioProcessor_init\<lparr>outputBuffer := [1, 2, 3]\<rparr>) (map ReadCall [2, 0, 9]) =
     Some ([1, 2, 3], [], AudioProcessor_init)"
  using readData_fifo [of 3 "AudioProcessor_init\<lparr>outputBuffer := [1, 2, 3, 4, 5]\<rparr>"
      "[ReadCall 1, WriteCall [7, 0], ReadCall 8]" "[1, 2, 3, 0, 0]" "[0, 0]"
      "AudioProcessor_init\<lparr>shifter := \<lparr>factor = 0.8, phase = 0, buffer = [7 / 32768]\<rparr>\<rparr>"
      "[2, 0, 9]"]
  by (simp add: readData_def writeData_def processSample_def AudioProcessor_init_def
      PitchShifter_init_def LowPassFilter_init_def LowPassFilter_process_def
      PitchShifter_process_def PitchShifter_threshold_init double_to_qint16_def trunc_double_def
      sample_at_def qint16_of_bytes_def bytes_of_qint16_def SAMPLE_RATE_def PI_def Let_def)

section \<open>The write path\<close>





text \<open>
  C2 as stated fails: \<open>writeData\<close> has no check of the byte count. A block of three
  bytes is accepted on the state after construction: the call reports three bytes
  written, the shifter has buffered the sample of the first two bytes, and two bytes
  have been appended to the output queue.
\<close>

theorem writeData_odd_length_counterexample:
  "odd (length [1, 0, 7 :: byte]) \<and>
   outputBuffer AudioProcessor_init = [] \<and>
   buffer (shifter AudioProcessor_init) = [] \<and>
   writeData AudioProcessor_init [1, 0, 7] =
     Some (3, AudioProcessor_init
       \<lparr>shifter := \<lparr>factor = 0.8, phase = 0, buffer = [1 / 32768]\<rparr>,
        outputBuffer := [0, 0]\<rparr>)"
  by (simp add: writeData_def processSample_def AudioProcessor_init_def
      PitchShifter_init_def LowPassFilter_init_def LowPassFilter_process_def
      PitchShifter_process_def PitchShifter_threshold_init double_to_qint16_def trunc_double_def
      sample_at_def qint16_of_bytes_def bytes_of_qint16_def SAMPLE_RATE_def PI_def Let_def)

text \<open>
  C2, amended. For a byte count that is not a multiple of 2, \<open>writeData\<close> does what it
  does for the block without its last byte, which it never reads, and reports the full
  count as written. On the state after construction and every state reached from it by
  \<open>writeData\<close>, the call succeeds and appends two bytes for each complete sample.
\<close>

theorem writeData_odd_length:
  assumes "odd (length data)"
  shows "writeData st data =
           map_option (\<lambda>(n, st'). (int (length data), st')) (writeData st (butlast data)) \<and>
         (normalised st \<longrightarrow>
            (\<exists>st'. writeData st data = Some (int (length data), st') \<and>
               length (outputBuffer st') = length (outputBuffer st) + (length data - 1)))"
proof -
  have "2 * (length data div 2) = length data - 1"
    using assms by (auto elim!: oddE)
  then show ?thesis
    using writeData_odd [OF assms, of st] writeData_normalised [of st data] by auto
qed

theorem writeData_odd_length_witness:
  "odd (length [1, 0, 7 :: byte]) \<and> normalised AudioProcessor_init \<and>
   writeData AudioProcessor_init [1, 0, 7] =
     map_option (\<lambda>(n, st'). (3, st')) (writeData AudioProcessor_init [1, 0]) \<and>
   writeData AudioProcessor_init [1, 0] =
     Some (2, AudioProcessor_init
       \<lparr>shifter := \<lparr>factor = 0.8, phase = 0, buffer = [1 / 32768]\<rparr>,
        outputBuffer := [0, 0]\<rparr>)"
  using writeData_odd_length [of "[1, 0, 7]" AudioProcessor_init] normalised_init
  by (simp add: writeData_def processSample_def AudioProcessor_init_def
      PitchShifter_init_def LowPassFilter_init_def LowPassFilter_process_def
      PitchShifter_process_def PitchShifter_threshold_init double_to_qint16_def trunc_double_def
      sample_at_def qint16_of_bytes_def bytes_of_qint16_def SAMPLE_RATE_def PI_def Let_def)

section \<open>Construction, open and close\<close>




text \<open>
  C7 as stated fails: no method resets the members. After one write on the state
  after construction, closing and opening again leaves two bytes in the output queue
  and one sample in the buffer of the shifter; and once the shifter is full, the \<open>prev\<close>
  of the filter is not 0 after the next write, and stays so over a close and an open.
\<close>

theorem reopen_fresh_counterexample:
  "writeData AudioProcessor_init [1, 0] =
     Some (2, AudioProcessor_init
       \<lparr>shifter := \<lparr>factor = 0.8, phase = 0, buffer = [1 / 32768]\<rparr>,
        outputBuffer := [0, 0]\<rparr>) \<and>
   outputBuffer (startProcessing (stopProcessing (AudioProcessor_init
       \<lparr>shifter := \<lparr>factor = 0.8, phase = 0, buffer = [1 / 32768]\<rparr>,
        outputBuffer := [0, 0]\<rparr>))) = [0, 0] \<and>
   buffer (shifter (startProcessing (stopProcessing (AudioProcessor_init
       \<lparr>shifter := \<lparr>factor = 0.8, phase = 0, buffer = [1 / 32768]\<rparr>,
        outputBuffer := [0, 0]\<rparr>)))) = [1 / 32768] \<and>
   prev (filter_lpf (startProcessing (stopProcessing (full_state
       \<lparr>filter_lpf := (filter_lpf full_state)
            \<lparr>prev := alpha (filter_lpf full_state) * (13 / 32768)\<rparr>,
        shifter := \<lparr>factor = 0.8, phase = 0,
                     buffer = replicate 55124 (13 / 32768) @ [13 / 32768]\<rparr>,
        outputBuffer := [0, 0]\<rparr>)))) =
     2042035224833365604999 / 125569585403641517241892864"
  by (simp add: startProcessing_def stopProcessing_def full_state_def
      writeData_def processSample_def AudioProcessor_init_def
      PitchShifter_init_def LowPassFilter_init_def LowPassFilter_process_def
      PitchShifter_process_def PitchShifter_threshold_init double_to_qint16_def trunc_double_def
      sample_at_def qint16_of_bytes_def bytes_of_qint16_def SAMPLE_RATE_def PI_def Let_def)

text \<open>
  C7, amended. The state after construction, which opens the device, is fresh: the
  output queue and the buffer of the shifter are empty and \<open>prev\<close> is 0. Opening and
  closing change the open mode only: filter, shifter and output queue are after
  \<open>startProcessing\<close> and after \<open>stopProcessing\<close> what they were before.
\<close>

theorem open_close_keep_state:
  "outputBuffer AudioProcessor_init = [] \<and>
   buffer (shifter AudioProcessor_init) = [] \<and>
   prev (filter_lpf AudioProcessor_init) = 0 \<and>
   openMode AudioProcessor_init \<and>
   startProcessing st = st\<lparr>openMode := True\<rparr> \<and>
   filter_lpf (startProcessing st) = filter_lpf st \<and>
   shifter (startProcessing st) = shifter st \<and>
   outputBuffer (startProcessing st) = outputBuffer st \<and>
   filter_lpf (stopProcessing st) = filter_lpf st \<and>
   shifter (stopProcessing st) = shifter st \<and>
   outputBuffer (stopProcessing st) = outputBuffer st \<and>
   filter_lpf (startProcessing (stopProcessing st)) = filter_lpf st \<and>
   shifter (startProcessing (stopProcessing st)) = shifter st \<and>
   outputBuffer (startProcessing (stopProcessing st)) = outputBuffer st"
  by (simp add: startProcessing_def stopProcessing_def AudioProcessor_init_def
      PitchShifter_init_def LowPassFilter_init_300 SAMPLE_RATE_def)

section \<open>An empty block\<close>

text \<open>
  C9. \<open>writeData\<close> with a block of zero bytes succeeds, reports zero bytes written and
  leaves the whole state as it was: the output queue, the filter and the pending queue
  of the shifter.
\<close>

theorem writeData_empty_noop: "writeData st [] = Some (0, st)"
  by (simp add: writeData_def)

end
